theory Spec2Isabelle
  imports Main "HOL-Library.Word"
begin

unbundle bit_operations_syntax

section \<open>Buffer pool: memory/hocs_dma_allocator.cpp\<close>

text \<open>
  The allocator is the class \<^verbatim>\<open>HOCSMremoryManager\<close>. Its target is ARM64, so
  \<^verbatim>\<open>size_t\<close> and \<^verbatim>\<open>uintptr_t\<close> are 64-bit unsigned integers whose arithmetic
  wraps around; they are modelled as \<open>64 word\<close>. Only the three fields that the
  allocation path reads or writes are kept.
\<close>

type_synonym size_t = "64 word"

record pool =
  base_pointer :: size_t
  total_capacity :: size_t
  current_offset :: size_t

text \<open>
  \<^verbatim>\<open>#define ALIGN_UP(x, align) (((x) + (align) - 1) & ~((align) - 1))\<close>,
  evaluated in \<^verbatim>\<open>size_t\<close> arithmetic.
\<close>

definition ALIGN_UP :: "size_t \<Rightarrow> size_t \<Rightarrow> size_t" where
  "ALIGN_UP x align = (x + align - 1) AND NOT (align - 1)"

text \<open>
  The constructor: \<^verbatim>\<open>total_capacity = pool_size_mb * 1024 * 1024\<close> and
  \<^verbatim>\<open>current_offset.store(0)\<close>. The address returned by \<^verbatim>\<open>mmap\<close> or
  \<^verbatim>\<open>aligned_alloc\<close> is a parameter.
\<close>

definition new_pool :: "size_t \<Rightarrow> size_t \<Rightarrow> pool" where
  "new_pool base pool_size_mb =
     \<lparr>base_pointer = base, total_capacity = pool_size_mb * 1024 * 1024, current_offset = 0\<rparr>"

text \<open>
  \<^verbatim>\<open>allocate_tensor_buffer\<close>: the offset is advanced by \<^verbatim>\<open>fetch_add\<close> before
  the capacity test and is never rolled back. \<open>None\<close> is the \<^verbatim>\<open>return nullptr\<close> of the
  out-of-memory branch; \<open>Some a\<close> is \<^verbatim>\<open>return (void*)addr\<close>.
\<close>

definition allocate_tensor_buffer :: "pool \<Rightarrow> size_t \<Rightarrow> size_t option \<times> pool" where
  "allocate_tensor_buffer p sz =
     (let aligned_size = ALIGN_UP sz 64;
          old_offset = current_offset p;
          p' = p\<lparr>current_offset := old_offset + aligned_size\<rparr>
      in if old_offset + aligned_size > total_capacity p then (None, p')
         else (Some (base_pointer p + old_offset), p'))"

definition fast_reset :: "pool \<Rightarrow> pool" where
  "fast_reset p = p\<lparr>current_offset := 0\<rparr>"

text \<open>A sequence of calls on one manager, in program order.\<close>

fun allocate_all :: "pool \<Rightarrow> size_t list \<Rightarrow> size_t option list \<times> pool" where
  "allocate_all p [] = ([], p)"
| "allocate_all p (s # ss) =
     (case allocate_tensor_buffer p s of
        (r, p') \<Rightarrow> (case allocate_all p' ss of (rs, p'') \<Rightarrow> (r # rs, p'')))"

text \<open>
  The block that a successful call hands out, as the code records it in its
  \<^verbatim>\<open>DMA_Block_Header\<close>: \<^verbatim>\<open>virtual_addr = addr\<close> and \<^verbatim>\<open>size = aligned_size\<close>.
  \<open>block_offset\<close> is the distance of the address from the pool base; \<open>in_block\<close> says
  that the byte at offset \<open>k\<close> of the pool belongs to the block.
\<close>

definition block_offset :: "pool \<Rightarrow> size_t \<Rightarrow> nat" where
  "block_offset p addr = unat (addr - base_pointer p)"

definition block_size :: "size_t \<Rightarrow> nat" where
  "block_size sz = unat (ALIGN_UP sz 64)"

definition in_block :: "pool \<Rightarrow> size_t \<Rightarrow> size_t \<Rightarrow> nat \<Rightarrow> bool" where
  "in_block p addr sz k =
     (block_offset p addr \<le> k \<and> k < block_offset p addr + block_size sz)"


section \<open>Safety monitor: module \<^verbatim>\<open>hocs_scram_controller\<close>\<close>

text \<open>
  The Verilog module has two clocked processes that are sensitive to the same edges
  and only use non-blocking assignments, so on every tick each right-hand side is read
  in the state before the tick. The two-bit state register is a datatype with the four
  encodings that the source names. A tick is one rising clock edge; a tick whose
  \<open>rst_n\<close> input is low takes the reset branch of both processes.
\<close>

datatype fsm_state = STATE_OK | STATE_WARNING | STATE_SCRAM | STATE_DEAD

record scram_regs =
  watchdog_counter :: "32 word"
  heartbeat_prev :: bool
  current_state :: fsm_state
  power_cut_trigger :: bool
  system_locked :: bool
  status_leds :: "4 word"

record scram_inputs =
  rst_n :: bool
  heartbeat_signal :: bool
  temp_sensor_raw :: "8 word"

definition TEMP_CRITICAL_LIMIT :: "8 word" where
  "TEMP_CRITICAL_LIMIT = 200"

definition WATCHDOG_LIMIT :: "32 word" where
  "WATCHDOG_LIMIT = 300000000"

text \<open>The watchdog process: the next values of \<open>watchdog_counter\<close> and \<open>heartbeat_prev\<close>.\<close>

definition watchdog_logic :: "scram_regs \<Rightarrow> scram_inputs \<Rightarrow> 32 word \<times> bool" where
  "watchdog_logic s i =
     (if \<not> rst_n i then (0, False)
      else if heartbeat_signal i \<noteq> heartbeat_prev s then (0, heartbeat_signal i)
      else if watchdog_counter s < WATCHDOG_LIMIT then (watchdog_counter s + 1, heartbeat_prev s)
      else (watchdog_counter s, heartbeat_prev s))"

text \<open>
  The SCRAM process. The \<^verbatim>\<open>case\<close> statement has no item for \<open>STATE_WARNING\<close>, so
  in that state every register of the process keeps its value.
\<close>

definition scram_fsm :: "scram_regs \<Rightarrow> scram_inputs \<Rightarrow> scram_regs" where
  "scram_fsm s i =
     (if \<not> rst_n i then
        s\<lparr>current_state := STATE_OK, power_cut_trigger := False, system_locked := False,
          status_leds := 1\<rparr>
      else case current_state s of
        STATE_OK \<Rightarrow>
          s\<lparr>current_state :=
              (if temp_sensor_raw i > TEMP_CRITICAL_LIMIT then STATE_SCRAM
               else if watchdog_counter s \<ge> WATCHDOG_LIMIT then STATE_SCRAM
               else current_state s),
            status_leds := 1\<rparr>
      | STATE_SCRAM \<Rightarrow>
          s\<lparr>power_cut_trigger := True, system_locked := True, status_leds := 15,
            current_state := STATE_DEAD\<rparr>
      | STATE_DEAD \<Rightarrow>
          s\<lparr>power_cut_trigger := True, status_leds := NOT (status_leds s)\<rparr>
      | STATE_WARNING \<Rightarrow> s)"

definition tick :: "scram_regs \<Rightarrow> scram_inputs \<Rightarrow> scram_regs" where
  "tick s i =
     (case watchdog_logic s i of
        (c, h) \<Rightarrow> (scram_fsm s i)\<lparr>watchdog_counter := c, heartbeat_prev := h\<rparr>)"

text \<open>The register values that the reset branches assign.\<close>

definition reset_regs :: scram_regs where
  "reset_regs =
     \<lparr>watchdog_counter = 0, heartbeat_prev = False, current_state = STATE_OK,
      power_cut_trigger = False, system_locked = False, status_leds = 1\<rparr>"

text \<open>The state after \<open>n\<close> ticks, where \<open>inp t\<close> is the input sampled by tick number \<open>t\<close>.\<close>

primrec run :: "scram_regs \<Rightarrow> (nat \<Rightarrow> scram_inputs) \<Rightarrow> nat \<Rightarrow> scram_regs" where
  "run s inp 0 = s"
| "run s inp (Suc n) = tick (run s inp n) (inp n)"

text \<open>The states that the monitor can be in once it has been reset.\<close>

inductive reachable :: "scram_regs \<Rightarrow> bool" where
  reach_reset: "reachable reset_regs"
| reach_tick: "reachable s \<Longrightarrow> reachable (tick s i)"

text \<open>Two input streams used as concrete inputs: no heartbeat at all, and a first
  heartbeat that arrives on tick number 300000000.\<close>

definition idle_inputs :: "nat \<Rightarrow> scram_inputs" where
  "idle_inputs t = \<lparr>rst_n = True, heartbeat_signal = False, temp_sensor_raw = 0\<rparr>"

definition late_heartbeat :: "nat \<Rightarrow> scram_inputs" where
  "late_heartbeat t =
     \<lparr>rst_n = True, heartbeat_signal = (t \<ge> 300000000), temp_sensor_raw = 0\<rparr>"

section \<open>Register map: docs/INTERFACE_SPEC.md, section 3\<close>

text \<open>
  The control and status registers of the interface document, with their byte offsets
  in BAR0 and their access column (\<open>R/W\<close> or \<open>RO\<close>).
\<close>

datatype csr = CONTROL | STATUS | ERROR | VERSION | TEMP

datatype csr_access = RW | RO

fun csr_offset :: "csr \<Rightarrow> size_t" where
  "csr_offset CONTROL = 0x00"
| "csr_offset STATUS = 0x04"
| "csr_offset ERROR = 0x08"
| "csr_offset VERSION = 0x0C"
| "csr_offset TEMP = 0x10"

fun csr_rw :: "csr \<Rightarrow> csr_access" where
  "csr_rw CONTROL = RW"
| "csr_rw STATUS = RO"
| "csr_rw ERROR = RO"
| "csr_rw VERSION = RO"
| "csr_rw TEMP = RO"

definition csr_at :: "size_t \<Rightarrow> csr option" where
  "csr_at off = find (\<lambda>r. csr_offset r = off) [CONTROL, STATUS, ERROR, VERSION, TEMP]"

section \<open>Kernel driver: kernel_driver/hocs_pci.c\<close>

text \<open>
  Every entry point of the driver returns, next to its C result, the list of register
  accesses it issues, in program order. \<open>IORead a\<close> is \<^verbatim>\<open>ioread32(a)\<close> and
  \<open>IOWrite v a\<close> is \<^verbatim>\<open>iowrite32(v, a)\<close>. The device is a function \<open>hw\<close> from
  addresses to the 32-bit value that a read returns. Of the global \<^verbatim>\<open>hocs_dev\<close>
  only \<open>bar0_base\<close> takes part in a register access.
\<close>

type_synonym u32 = "32 word"
type_synonym byte = "8 word"

datatype mmio = IORead size_t | IOWrite u32 size_t

record hocs_dev_t =
  bar0_base :: size_t

definition REG_CONTROL :: size_t where "REG_CONTROL = 0x00"
definition REG_STATUS :: size_t where "REG_STATUS = 0x04"
definition REG_IRQ_ACK :: size_t where "REG_IRQ_ACK = 0x08"

definition EFAULT :: size_t where "EFAULT = 14"

text \<open>The addresses that a trace writes to.\<close>

fun written :: "mmio list \<Rightarrow> size_t list" where
  "written [] = []"
| "written (IORead a # es) = written es"
| "written (IOWrite v a # es) = a # written es"

text \<open>
  User memory maps an address to its byte, or to \<open>None\<close> where an access faults.
  Kernel memory is a total map from addresses to bytes. \<open>in_range a n x\<close> says that
  address \<open>x\<close> is one of the \<open>n\<close> bytes that start at \<open>a\<close>.
\<close>

type_synonym user_mem = "size_t \<Rightarrow> byte option"
type_synonym kernel_mem = "size_t \<Rightarrow> byte"

definition in_range :: "size_t \<Rightarrow> size_t \<Rightarrow> size_t \<Rightarrow> bool" where
  "in_range a n x = (x - a < n)"

definition user_byte :: "user_mem \<Rightarrow> size_t \<Rightarrow> byte" where
  "user_byte um a = (case um a of Some b \<Rightarrow> b | None \<Rightarrow> 0)"

definition first_fault :: "user_mem \<Rightarrow> size_t \<Rightarrow> size_t \<Rightarrow> nat option" where
  "first_fault um a n = find (\<lambda>k. um (a + of_nat k) = None) [0..<unat n]"

text \<open>
  \<^verbatim>\<open>copy_from_user(to, from, n)\<close> is kernel code outside this repository
  (\<^verbatim>\<open>include/linux/uaccess.h\<close>). The driver calls the two-argument
  \<^verbatim>\<open>class_create\<close>, so it builds against kernels before 6.4; in those kernels,
  from 4.13 on, \<^verbatim>\<open>copy_from_user\<close> first compares \<open>n\<close> with the size of the
  destination object where the compiler knows that size, as it does for the address of
  a local variable (\<^verbatim>\<open>check_copy_size\<close>): when \<open>n\<close> is larger, nothing is copied
  and \<open>n\<close> is returned. \<open>objsize\<close> is that size. Otherwise the function copies
  \<open>n\<close> bytes from user space to \<open>to\<close> and returns the number of bytes that could
  not be copied, zero on success; when some bytes could not be copied, the rest of the
  \<open>n\<close> destination bytes is filled with zeros.
\<close>

definition copy_from_user ::
  "kernel_mem \<Rightarrow> size_t \<Rightarrow> size_t \<Rightarrow> user_mem \<Rightarrow> size_t \<Rightarrow> size_t
     \<Rightarrow> size_t \<times> kernel_mem" where
  "copy_from_user km to objsize um from n =
     (if objsize < n then (n, km)
      else
        let copied = (case first_fault um from n of None \<Rightarrow> unat n | Some k \<Rightarrow> k)
        in (n - of_nat copied,
            \<lambda>x. if in_range to n x
                 then (if unat (x - to) < copied then user_byte um (from + (x - to)) else 0)
                 else km x))"

text \<open>
  \<^verbatim>\<open>copy_to_user(to, from, n)\<close>, with the bytes to copy given as a list: it stores
  them up to the first faulting address and returns the number of bytes not copied.
\<close>

fun copy_to_user :: "user_mem \<Rightarrow> size_t \<Rightarrow> byte list \<Rightarrow> size_t \<times> user_mem" where
  "copy_to_user um to [] = (0, um)"
| "copy_to_user um to (b # bs) =
     (if um to = None then (of_nat (length (b # bs)), um)
      else copy_to_user (um(to := Some b)) (to + 1) bs)"

text \<open>A 32-bit object in memory, least significant byte first.\<close>

definition u32_of_bytes :: "byte \<Rightarrow> byte \<Rightarrow> byte \<Rightarrow> byte \<Rightarrow> u32" where
  "u32_of_bytes b0 b1 b2 b3 =
     ucast b0 OR push_bit 8 (ucast b1) OR push_bit 16 (ucast b2) OR push_bit 24 (ucast b3)"

definition load32 :: "kernel_mem \<Rightarrow> size_t \<Rightarrow> u32" where
  "load32 km a = u32_of_bytes (km a) (km (a + 1)) (km (a + 2)) (km (a + 3))"

definition store32 :: "u32 \<Rightarrow> byte list" where
  "store32 w = [ucast w, ucast (drop_bit 8 w), ucast (drop_bit 16 w), ucast (drop_bit 24 w)]"

text \<open>\<^verbatim>\<open>hocs_open\<close> only logs and returns 0.\<close>

definition hocs_open :: "int \<times> mmio list" where
  "hocs_open = (0, [])"

text \<open>
  \<^verbatim>\<open>hocs_read\<close>: the result is \<^verbatim>\<open>sizeof(status_reg)\<close> or \<^verbatim>\<open>-EFAULT\<close>, as a
  64-bit \<^verbatim>\<open>ssize_t\<close>.
\<close>

definition hocs_read ::
  "hocs_dev_t \<Rightarrow> (size_t \<Rightarrow> u32) \<Rightarrow> user_mem \<Rightarrow> size_t \<Rightarrow> size_t
     \<Rightarrow> size_t \<times> user_mem \<times> mmio list" where
  "hocs_read dev hw um buf len =
     (let status_reg = hw (bar0_base dev + REG_STATUS);
          io = [IORead (bar0_base dev + REG_STATUS)]
      in case copy_to_user um buf (store32 status_reg) of
           (left, um') \<Rightarrow> if left \<noteq> 0 then (- EFAULT, um', io) else (4, um', io))"

text \<open>
  \<^verbatim>\<open>hocs_write\<close>: \<open>cmd_reg\<close> is the address of the local \<^verbatim>\<open>u32 cmd_reg\<close>, an
  object of \<^verbatim>\<open>sizeof(u32)\<close> = 4 bytes, and \<open>km\<close> the kernel memory on entry, in
  which the four bytes of the uninitialised local hold whatever was there. The driver
  passes \<open>len\<close> as the byte count without looking at it.
\<close>

definition hocs_write ::
  "hocs_dev_t \<Rightarrow> kernel_mem \<Rightarrow> size_t \<Rightarrow> user_mem \<Rightarrow> size_t \<Rightarrow> size_t
     \<Rightarrow> size_t \<times> kernel_mem \<times> mmio list" where
  "hocs_write dev km cmd_reg um buf len =
     (case copy_from_user km cmd_reg 4 um buf len of
        (left, km') \<Rightarrow>
          if left \<noteq> 0 then (- EFAULT, km', [])
          else (len, km', [IOWrite (load32 km' cmd_reg) (bar0_base dev + REG_CONTROL)]))"




datatype irqreturn = IRQ_NONE | IRQ_HANDLED

definition hocs_irq_handler :: "hocs_dev_t \<Rightarrow> (size_t \<Rightarrow> u32) \<Rightarrow> irqreturn \<times> mmio list" where
  "hocs_irq_handler dev hw =
     (let irq_status = hw (bar0_base dev + REG_IRQ_ACK)
      in if irq_status AND 0x01 \<noteq> 0
         then (IRQ_HANDLED,
               [IORead (bar0_base dev + REG_IRQ_ACK), IOWrite 0x01 (bar0_base dev + REG_IRQ_ACK)])
         else (IRQ_NONE, [IORead (bar0_base dev + REG_IRQ_ACK)]))"

text \<open>
  \<^verbatim>\<open>hocs_driver_init\<close>. The results of the four kernel registration calls are
  inputs; the kernel calls made are recorded next to the register accesses. \<open>hw\<close>
  is the device that is present when the module is loaded.
\<close>

record kernel_results =
  alloc_chrdev_region_ret :: int
  class_create_null :: bool
  device_create_null :: bool
  cdev_add_ret :: int

datatype kernel_call =
  Alloc_chrdev_region | Class_create | Device_create | Cdev_init | Cdev_add
  | Unregister_chrdev_region | Class_destroy | Device_destroy

definition hocs_driver_init ::
  "kernel_results \<Rightarrow> (size_t \<Rightarrow> u32) \<Rightarrow> int \<times> kernel_call list \<times> mmio list" where
  "hocs_driver_init k hw =
     (if alloc_chrdev_region_ret k < 0 then (- 1, [Alloc_chrdev_region], [])
      else if class_create_null k then
        (- 1, [Alloc_chrdev_region, Class_create, Unregister_chrdev_region], [])
      else if device_create_null k then
        (- 1, [Alloc_chrdev_region, Class_create, Device_create, Class_destroy,
               Unregister_chrdev_region], [])
      else if cdev_add_ret k = - 1 then
        (- 1, [Alloc_chrdev_region, Class_create, Device_create, Cdev_init, Cdev_add,
               Device_destroy, Class_destroy, Unregister_chrdev_region], [])
      else (0, [Alloc_chrdev_region, Class_create, Device_create, Cdev_init, Cdev_add], []))"

section \<open>Packet codec: docs/INTERFACE_SPEC.md, section 2\<close>

text \<open>
  The repository documents the job packet (the table of section 2 of the interface
  document) but holds no code that builds or parses one, so every definition of this
  section follows the written description. The document gives the magic value as
  \<^verbatim>\<open>0xH0C5\<close>, which is not a number, and names no CRC polynomial; both are
  parameters of the codec.
\<close>

text \<open>Modelled from the spec: the opcode enumeration \<open>{WRITE, READ, CONFIG}\<close> of the
  packet; the repository declares no such type.\<close>

datatype opcode = WRITE | READ | CONFIG

text \<open>Modelled from the spec: the codes \<open>0x1\<close> = WRITE, \<open>0x2\<close> = READ, \<open>0x3\<close> = CONFIG
  of the \<open>OPCODE\<close> field; the repository has no definition of them.\<close>

fun opcode_value :: "opcode \<Rightarrow> u32" where
  "opcode_value WRITE = 0x1"
| "opcode_value READ = 0x2"
| "opcode_value CONFIG = 0x3"

text \<open>Modelled from the spec: the opcode that a code of the \<open>OPCODE\<close> field denotes, if
  any; the repository has no parser for the field.\<close>

definition opcode_of_value :: "u32 \<Rightarrow> opcode option" where
  "opcode_of_value v = find (\<lambda>c. opcode_value c = v) [WRITE, READ, CONFIG]"

text \<open>Modelled from the spec: the packet of the data model, with the fields of the wire
  table; \<open>opcode\<close> holds the four-byte code as it is on the wire. The repository has no
  packet type.\<close>

record JobPacket =
  magic :: u32
  opcode :: u32
  payload_len :: u32
  tile_id :: u32
  payload :: "byte list"
  crc32 :: u32

text \<open>Modelled from the spec: the three failures of decoding; the repository has no
  decoder and no error type.\<close>

datatype decode_error = ChecksumError | MagicMismatch | Truncated

text \<open>Modelled from the spec: what the description leaves open, the value of the magic
  constant (\<open>MAGIC_VAL\<close> of the wire table) and the CRC32 function; the repository
  defines neither.\<close>

record codec =
  MAGIC_VAL :: u32
  CRC32 :: "byte list \<Rightarrow> u32"

text \<open>Modelled from the spec: the 32-bit little-endian field that starts at byte \<open>off\<close>
  of a buffer; the repository has no packet reader. The decoder only reads fields that
  lie within the buffer.\<close>

definition read32 :: "byte list \<Rightarrow> nat \<Rightarrow> u32" where
  "read32 bs off = u32_of_bytes (bs ! off) (bs ! (off + 1)) (bs ! (off + 2)) (bs ! (off + 3))"

text \<open>Modelled from the spec: the number of padding bytes that bring a payload of
  \<open>n\<close> bytes to a whole number of 64-bit words; the repository has no encoder.\<close>

definition pad_len :: "nat \<Rightarrow> nat" where
  "pad_len n = (8 - n mod 8) mod 8"

text \<open>Modelled from the spec: the encoder, which the repository does not contain. The
  fields are written in the fixed order magic, opcode, payload length, tile id, payload,
  CRC32, each 32-bit field little-endian, at the offsets of the wire table (header 16
  bytes, payload from \<open>0x10\<close>). The payload is word-aligned with padding: when its
  length is not a multiple of 64 bits, zero bytes follow it up to the next 64-bit word.
  \<open>payload_len\<close> is the length of the payload itself, and the CRC32, computed over
  header and payload, is the trailing four bytes.\<close>

definition encode :: "codec \<Rightarrow> opcode \<Rightarrow> u32 \<Rightarrow> byte list \<Rightarrow> byte list" where
  "encode c opc tid pl =
     (let body = store32 (MAGIC_VAL c) @ store32 (opcode_value opc)
                 @ store32 (of_nat (length pl)) @ store32 tid @ pl
      in body @ replicate (pad_len (length pl)) 0 @ store32 (CRC32 c body))"

text \<open>Modelled from the spec: the decoder, which the repository does not contain. It
  validates the magic first, then checks the payload length, with its padding and the
  footer, against the bytes that remain (\<open>Truncated\<close> when they do not suffice, so that
  no read is out of bounds), then recomputes the CRC32 over header and payload and
  compares it with the footer, which follows the padded payload (\<open>ChecksumError\<close> on a
  mismatch). A buffer too short to hold the magic or the header is \<open>Truncated\<close>.\<close>

definition decode :: "codec \<Rightarrow> byte list \<Rightarrow> decode_error + JobPacket" where
  "decode c bs =
     (if length bs < 4 then Inl Truncated
      else if read32 bs 0 \<noteq> MAGIC_VAL c then Inl MagicMismatch
      else if length bs < 16 then Inl Truncated
      else let n = unat (read32 bs 8); m = n + pad_len n in
        if length bs - 16 < m + 4 then Inl Truncated
        else if read32 bs (16 + m) \<noteq> CRC32 c (take (16 + n) bs) then Inl ChecksumError
        else Inr \<lparr>magic = read32 bs 0, opcode = read32 bs 4, payload_len = read32 bs 8,
                  tile_id = read32 bs 12, payload = take n (drop 16 bs),
                  crc32 = read32 bs (16 + m)\<rparr>)"

text \<open>Modelled from the spec: one step of a concrete checksum, the reflected CRC-32 with
  polynomial \<open>0xEDB88320\<close>; the spec only says CRC32 and the repository has no
  implementation.\<close>

definition crc32_bit :: "u32 \<Rightarrow> u32" where
  "crc32_bit c = (if c AND 1 \<noteq> 0 then drop_bit 1 c XOR 0xEDB88320 else drop_bit 1 c)"

text \<open>Modelled from the spec: the same checksum over one byte, which the repository
  does not implement.\<close>

definition crc32_byte :: "byte \<Rightarrow> u32 \<Rightarrow> u32" where
  "crc32_byte b c = (crc32_bit ^^ 8) (c XOR ucast b)"

text \<open>Modelled from the spec: the same checksum over a byte sequence, which the
  repository does not implement.\<close>

definition crc32_ieee :: "byte list \<Rightarrow> u32" where
  "crc32_ieee bs = NOT (fold crc32_byte bs 0xFFFFFFFF)"

text \<open>Modelled from the spec: a concrete codec, with the ASCII bytes of \<open>H0C5\<close> for the
  magic constant that the repository leaves undefined.\<close>

definition example_codec :: codec where
  "example_codec = \<lparr>MAGIC_VAL = 0x48304335, CRC32 = crc32_ieee\<rparr>"

section \<open>Properties of the buffer pool\<close>

subsection \<open>Rounding to the cache line\<close>

lemma and_not_mask6: "(x::64 word) AND NOT (mask 6) = push_bit 6 (drop_bit 6 x)"
  by (rule bit_word_eqI) (auto simp add: bit_simps)

lemma and_minus_64_push: "(x::64 word) AND - 64 = push_bit 6 (drop_bit 6 x)"
  using and_not_mask6 [of x] by (simp add: mask_eq_exp_minus_1)

lemma unat_and_minus_64: "unat ((x::64 word) AND - 64) = unat x div 64 * 64"
proof -
  have b: "unat x < 2 ^ 64" using unsigned_less [of x] by simp
  then have c: "unat x div 64 < 2 ^ 64" by simp
  have a: "unat x div 64 * 64 \<le> unat x" by simp
  have "unat (push_bit 6 (drop_bit 6 x)) = (unat (drop_bit 6 x) * 64) mod 2 ^ 64"
    by (simp add: push_bit_eq_mult unat_word_ariths)
  also have "\<dots> = (unat x div 64 * 64) mod 2 ^ 64"
    by (simp add: drop_bit_eq_div unat_div)
  also have "\<dots> = unat x div 64 * 64"
    using a b by simp
  finally show ?thesis by (simp add: and_minus_64_push)
qed

lemma ALIGN_UP_64_unat:
  assumes "unat s + 63 < 2 ^ 64"
  shows "unat (ALIGN_UP s 64) = (unat s + 63) div 64 * 64"
proof -
  have "unat (63 + s) = unat s + 63"
    using assms by (simp add: unat_word_ariths)
  then show ?thesis
    by (simp add: ALIGN_UP_def unat_and_minus_64)
qed

lemma ALIGN_UP_64_mod: "unat (ALIGN_UP s 64) mod 64 = 0"
  by (simp add: ALIGN_UP_def unat_and_minus_64)

subsection \<open>A call that fits\<close>

lemma unat_lt_2p64: "unat (x::64 word) < 2 ^ 64"
  using unsigned_less [of x] by simp

lemma allocate_fits:
  assumes "unat (current_offset p) + block_size s \<le> unat (total_capacity p)"
  shows "allocate_tensor_buffer p s =
           (Some (base_pointer p + current_offset p),
            p\<lparr>current_offset := current_offset p + ALIGN_UP s 64\<rparr>)"
    and "unat (current_offset p + ALIGN_UP s 64) = unat (current_offset p) + block_size s"
proof -
  have "unat (current_offset p) + unat (ALIGN_UP s 64) < 2 ^ 64"
    using assms unat_lt_2p64 [of "total_capacity p"] by (simp add: block_size_def)
  then show u: "unat (current_offset p + ALIGN_UP s 64) = unat (current_offset p) + block_size s"
    by (simp add: unat_word_ariths block_size_def)
  have "\<not> current_offset p + ALIGN_UP s 64 > total_capacity p"
    using assms u by (simp add: word_less_nat_alt)
  then show "allocate_tensor_buffer p s =
           (Some (base_pointer p + current_offset p),
            p\<lparr>current_offset := current_offset p + ALIGN_UP s 64\<rparr>)"
    by (simp add: allocate_tensor_buffer_def Let_def)
qed

lemma fst_allocate_all_Cons:
  "fst (allocate_all p (s # ss)) =
     fst (allocate_tensor_buffer p s) # fst (allocate_all (snd (allocate_tensor_buffer p s)) ss)"
  by (simp split: prod.splits)

lemma allocate_all_length: "length (fst (allocate_all p sizes)) = length sizes"
  by (induction sizes arbitrary: p) (simp_all add: fst_allocate_all_Cons del: allocate_all.simps(2))

lemma allocate_all_nth:
  assumes "unat (current_offset p) + sum_list (map block_size sizes) \<le> unat (total_capacity p)"
    and "i < length sizes"
  shows "fst (allocate_all p sizes) ! i =
           Some (base_pointer p + (current_offset p + of_nat (sum_list (map block_size (take i sizes)))))"
  using assms
proof (induction sizes arbitrary: p i)
  case Nil
  then show ?case by simp
next
  case (Cons s ss)
  let ?p' = "p\<lparr>current_offset := current_offset p + ALIGN_UP s 64\<rparr>"
  from Cons.prems have fits: "unat (current_offset p) + block_size s \<le> unat (total_capacity p)"
    by simp
  note step = allocate_fits [OF fits]
  show ?case
  proof (cases i)
    case 0
    then show ?thesis by (simp add: fst_allocate_all_Cons step(1) del: allocate_all.simps(2))
  next
    case (Suc k)
    have "unat (current_offset ?p') + sum_list (map block_size ss) \<le> unat (total_capacity ?p')"
      using Cons.prems(1) step(2) by simp
    moreover have "k < length ss" using Cons.prems(2) Suc by simp
    ultimately have "fst (allocate_all ?p' ss) ! k =
        Some (base_pointer ?p' + (current_offset ?p' + of_nat (sum_list (map block_size (take k ss)))))"
      by (rule Cons.IH)
    moreover have "ALIGN_UP s 64 = of_nat (block_size s)"
      by (simp add: block_size_def)
    ultimately show ?thesis
      using Suc by (simp add: fst_allocate_all_Cons step(1) add.assoc del: allocate_all.simps(2))
  qed
qed

subsection \<open>Offsets of a sequence of calls\<close>

lemma sum_take_le:
  fixes f :: "'a \<Rightarrow> nat"
  shows "sum_list (map f (take i xs)) \<le> sum_list (map f xs)"
proof -
  have "sum_list (map f xs) = sum_list (map f (take i xs)) + sum_list (map f (drop i xs))"
    by (metis append_take_drop_id map_append sum_list_append)
  then show ?thesis by simp
qed

lemma sum_take_Suc_le:
  fixes f :: "'a \<Rightarrow> nat"
  assumes "i < j" and "j \<le> length xs"
  shows "sum_list (map f (take i xs)) + f (xs ! i) \<le> sum_list (map f (take j xs))"
proof -
  have "i < length (take j xs)" using assms by simp
  then have "take (Suc i) (take j xs) = take i (take j xs) @ [take j xs ! i]"
    by (rule take_Suc_conv_app_nth)
  then have "take (Suc i) xs = take i xs @ [xs ! i]"
    using assms by (simp add: min_def)
  then have "sum_list (map f (take i xs)) + f (xs ! i) = sum_list (map f (take (Suc i) xs))"
    by simp
  also have "\<dots> = sum_list (map f (take (Suc i) (take j xs)))"
    using assms by (simp add: min_def)
  also have "\<dots> \<le> sum_list (map f (take j xs))"
    by (rule sum_take_le)
  finally show ?thesis .
qed

lemma round_up_below:
  fixes n c k :: nat
  assumes "(n + 63) div 64 * 64 \<le> c" and "c < 64 * k"
  shows "n + 63 < 64 * k"
proof -
  define q where "q = (n + 63) div 64"
  have a: "n + 63 = q * 64 + (n + 63) mod 64" by (simp add: q_def)
  have b: "(n + 63) mod 64 < 64" by simp
  have "q * 64 < 64 * k" using assms by (simp add: q_def)
  then have "q < k" by simp
  then have "Suc q \<le> k" by simp
  then have "Suc q * 64 \<le> k * 64" by (rule mult_le_mono1)
  then have "q * 64 + 64 \<le> 64 * k" by (simp add: mult.commute)
  with a b show ?thesis by linarith
qed

lemma rounded_size_is_block_size:
  assumes "(unat s + 63) div 64 * 64 \<le> unat (c::64 word)"
  shows "block_size s = (unat s + 63) div 64 * 64"
proof -
  have "unat c < 64 * 2 ^ 58" using unat_lt_2p64 [of c] by simp
  with assms have "unat s + 63 < 64 * 2 ^ 58" by (rule round_up_below)
  then have "unat s + 63 < 2 ^ 64" by simp
  then show ?thesis by (simp add: block_size_def ALIGN_UP_64_unat)
qed

lemma rounded_sum_is_block_sum:
  assumes "(\<Sum>s\<leftarrow>sizes. (unat s + 63) div 64 * 64) \<le> unat (c::64 word)"
  shows "map block_size sizes = map (\<lambda>s. (unat s + 63) div 64 * 64) sizes"
proof (rule map_cong [OF refl])
  fix s assume "s \<in> set sizes"
  then have "(unat s + 63) div 64 * 64 \<le> (\<Sum>s\<leftarrow>sizes. (unat s + 63) div 64 * 64)"
    by (simp add: member_le_sum_list)
  with assms have "(unat s + 63) div 64 * 64 \<le> unat c" by simp
  then show "block_size s = (unat s + 63) div 64 * 64"
    by (rule rounded_size_is_block_size)
qed

lemma block_offset_nth:
  assumes "unat (current_offset p) + sum_list (map block_size sizes) \<le> unat (total_capacity p)"
    and "i \<le> length sizes"
  shows "block_offset p (base_pointer p + (current_offset p + of_nat (sum_list (map block_size (take i sizes)))))
         = unat (current_offset p) + sum_list (map block_size (take i sizes))"
proof -
  let ?n = "sum_list (map block_size (take i sizes))"
  have "?n \<le> sum_list (map block_size sizes)" by (rule sum_take_le)
  with assms(1) have le: "unat (current_offset p) + ?n \<le> unat (total_capacity p)" by simp
  then have lt: "unat (current_offset p) + ?n < 2 ^ 64"
    using unat_lt_2p64 [of "total_capacity p"] by simp
  then have "?n < 2 ^ 64" by simp
  then have "unat (of_nat ?n :: 64 word) = ?n"
    by (simp add: unsigned_of_nat take_bit_nat_eq_self)
  with lt have "unat (current_offset p + of_nat ?n) = unat (current_offset p) + ?n"
    by (simp add: unat_word_ariths)
  then show ?thesis by (simp add: block_offset_def)
qed

lemma block_sizes_sum_aligned: "sum_list (map block_size xs) mod 64 = 0"
proof (induction xs)
  case Nil
  show ?case by simp
next
  case (Cons x xs)
  have "64 dvd block_size x"
    by (simp add: block_size_def ALIGN_UP_64_mod dvd_eq_mod_eq_0)
  moreover have "64 dvd sum_list (map block_size xs)"
    using Cons.IH by (simp add: dvd_eq_mod_eq_0)
  ultimately have "64 dvd block_size x + sum_list (map block_size xs)"
    by (rule dvd_add)
  then show ?case by (simp add: dvd_eq_mod_eq_0)
qed

lemma allocate_all_props:
  assumes start: "current_offset p = 0"
    and fits: "(\<Sum>s\<leftarrow>sizes. (unat s + 63) div 64 * 64) \<le> unat (total_capacity p)"
  shows "length (fst (allocate_all p sizes)) = length sizes"
    and "\<forall>i<length sizes. \<exists>a. fst (allocate_all p sizes) ! i = Some a
            \<and> block_offset p a mod 64 = 0
            \<and> block_offset p a + block_size (sizes ! i) \<le> unat (total_capacity p)"
    and "\<forall>i<length sizes. \<forall>j<length sizes. \<forall>a b k.
            i \<noteq> j \<and> fst (allocate_all p sizes) ! i = Some a \<and> fst (allocate_all p sizes) ! j = Some b
            \<longrightarrow> \<not> (in_block p a (sizes ! i) k \<and> in_block p b (sizes ! j) k)"
proof -
  let ?rs = "fst (allocate_all p sizes)"
  let ?off = "\<lambda>i. sum_list (map block_size (take i sizes))"
  let ?addr = "\<lambda>i. base_pointer p + (current_offset p + of_nat (?off i))"
  have sums: "map block_size sizes = map (\<lambda>s. (unat s + 63) div 64 * 64) sizes"
    using fits by (rule rounded_sum_is_block_sum)
  have room: "unat (current_offset p) + sum_list (map block_size sizes) \<le> unat (total_capacity p)"
    using start fits by (simp add: sums)
  have res: "?rs ! i = Some (?addr i)" if "i < length sizes" for i
    using room that by (rule allocate_all_nth)
  have off: "block_offset p (?addr i) = ?off i" if "i \<le> length sizes" for i
    using block_offset_nth [OF room that] start by simp
  have al: "?off i mod 64 = 0" for i
    by (rule block_sizes_sum_aligned)
  have nxt: "?off i + block_size (sizes ! i) \<le> ?off j" if "i < j" "j \<le> length sizes" for i j
    using sum_take_Suc_le [OF that, of block_size] that by simp
  have top: "?off i \<le> unat (total_capacity p)" if "i \<le> length sizes" for i
    using room sum_take_le [of block_size i sizes] by simp
  show "length ?rs = length sizes" by (rule allocate_all_length)
  show "\<forall>i<length sizes. \<exists>a. ?rs ! i = Some a \<and> block_offset p a mod 64 = 0
            \<and> block_offset p a + block_size (sizes ! i) \<le> unat (total_capacity p)"
  proof (intro allI impI)
    fix i assume i: "i < length sizes"
    have "?off i + block_size (sizes ! i) \<le> ?off (length sizes)"
      using i by (intro nxt) simp_all
    also have "\<dots> \<le> unat (total_capacity p)" by (rule top) simp
    finally have "block_offset p (?addr i) + block_size (sizes ! i) \<le> unat (total_capacity p)"
      using i by (simp add: off)
    moreover have "block_offset p (?addr i) mod 64 = 0"
      using i by (simp add: off al)
    ultimately show "\<exists>a. ?rs ! i = Some a \<and> block_offset p a mod 64 = 0
            \<and> block_offset p a + block_size (sizes ! i) \<le> unat (total_capacity p)"
      using res [OF i] by simp
  qed
  show "\<forall>i<length sizes. \<forall>j<length sizes. \<forall>a b k.
            i \<noteq> j \<and> ?rs ! i = Some a \<and> ?rs ! j = Some b
            \<longrightarrow> \<not> (in_block p a (sizes ! i) k \<and> in_block p b (sizes ! j) k)"
  proof (intro allI impI notI, elim conjE)
    fix i j a b k
    assume i: "i < length sizes" and j: "j < length sizes" and ne: "i \<noteq> j"
      and a: "?rs ! i = Some a" and b: "?rs ! j = Some b"
      and ka: "in_block p a (sizes ! i) k" and kb: "in_block p b (sizes ! j) k"
    have a': "block_offset p a = ?off i" using a res [OF i] off [of i] i by simp
    have b': "block_offset p b = ?off j" using b res [OF j] off [of j] j by simp
    from ne consider "i < j" | "j < i" by linarith
    then show False
    proof cases
      case 1
      then have "?off i + block_size (sizes ! i) \<le> ?off j" using j by (intro nxt) simp_all
      with ka kb a' b' show False by (simp add: in_block_def)
    next
      case 2
      then have "?off j + block_size (sizes ! j) \<le> ?off i" using i by (intro nxt) simp_all
      with ka kb a' b' show False by (simp add: in_block_def)
    qed
  qed
qed

text \<open>
  Claim C1. Take any finite sequence of calls of \<^verbatim>\<open>allocate_tensor_buffer\<close> on a pool
  whose offset is 0, such that the requested sizes, each rounded up to a multiple of 64,
  sum to at most the capacity. Then every call returns an address (none takes the
  out-of-memory branch), every returned address lies at an offset from the pool base
  that is a multiple of 64, every block ends within the capacity, and no byte offset
  belongs to the blocks of two different calls.
\<close>

theorem allocate_all_disjoint_aligned:
  assumes "current_offset p = 0"
    and "(\<Sum>s\<leftarrow>sizes. (unat s + 63) div 64 * 64) \<le> unat (total_capacity p)"
  shows "length (fst (allocate_all p sizes)) = length sizes
       \<and> (\<forall>i<length sizes. \<exists>a. fst (allocate_all p sizes) ! i = Some a
            \<and> block_offset p a mod 64 = 0
            \<and> block_offset p a + block_size (sizes ! i) \<le> unat (total_capacity p))
       \<and> (\<forall>i<length sizes. \<forall>j<length sizes. \<forall>a b k.
            i \<noteq> j \<and> fst (allocate_all p sizes) ! i = Some a
              \<and> fst (allocate_all p sizes) ! j = Some b
            \<longrightarrow> \<not> (in_block p a (sizes ! i) k \<and> in_block p b (sizes ! j) k))"
  using allocate_all_props [OF assms] by (intro conjI)

theorem allocate_all_disjoint_aligned_witness:
  "current_offset (new_pool 4096 4) = 0
   \<and> (\<Sum>s\<leftarrow>[1048576, 1, 65 :: size_t]. (unat s + 63) div 64 * 64)
       \<le> unat (total_capacity (new_pool 4096 4))
   \<and> length (fst (allocate_all (new_pool 4096 4) [1048576, 1, 65])) = 3
   \<and> fst (allocate_all (new_pool 4096 4) [1048576, 1, 65])
       = [Some 4096, Some 1052672, Some 1052736]
   \<and> \<not> (in_block (new_pool 4096 4) 4096 1048576 1048576
          \<and> in_block (new_pool 4096 4) 1052672 1 1048576)"
proof -
  have h1: "current_offset (new_pool 4096 4) = 0"
    by (simp add: new_pool_def)
  have h2: "(\<Sum>s\<leftarrow>[1048576, 1, 65 :: size_t]. (unat s + 63) div 64 * 64)
       \<le> unat (total_capacity (new_pool 4096 4))"
    by (simp add: new_pool_def)
  have "length (fst (allocate_all (new_pool 4096 4) [1048576, 1, 65])) = length [1048576, 1, 65 :: size_t]"
    using allocate_all_disjoint_aligned [OF h1 h2] by (rule conjunct1)
  then have len: "length (fst (allocate_all (new_pool 4096 4) [1048576, 1, 65])) = 3"
    by simp
  have res: "fst (allocate_all (new_pool 4096 4) [1048576, 1, 65])
       = [Some 4096, Some 1052672, Some 1052736]"
    by (simp add: new_pool_def allocate_tensor_buffer_def ALIGN_UP_def Let_def)
  have dis: "\<not> (in_block (new_pool 4096 4) 4096 1048576 1048576
          \<and> in_block (new_pool 4096 4) 1052672 1 1048576)"
    by (simp add: in_block_def block_offset_def block_size_def new_pool_def ALIGN_UP_def)
  show ?thesis
    using h1 h2 len res dis by (intro conjI)
qed

subsection \<open>Calls after the pool is exhausted\<close>

text \<open>
  As long as the 64-bit sum of offset and aligned size does not wrap, a block that is
  handed out ends within the capacity. After a failed call the offset is past the
  capacity, and again as long as that sum does not wrap, every later call fails as well.
\<close>

lemma allocation_within_capacity_without_wrap:
  assumes "fst (allocate_tensor_buffer p s) = Some a"
    and "unat (current_offset p) + block_size s < 2 ^ 64"
  shows "block_offset p a + block_size s \<le> unat (total_capacity p)"
proof -
  have sum: "unat (current_offset p + ALIGN_UP s 64) = unat (current_offset p) + block_size s"
    using assms(2) by (simp add: unat_word_ariths block_size_def)
  from assms(1) have le: "current_offset p + ALIGN_UP s 64 \<le> total_capacity p"
    and a: "a = base_pointer p + current_offset p"
    by (simp_all add: allocate_tensor_buffer_def Let_def not_less split: if_splits)
  from le sum have "unat (current_offset p) + block_size s \<le> unat (total_capacity p)"
    by (simp add: word_le_nat_alt)
  then show ?thesis by (simp add: a block_offset_def)
qed

lemma failed_allocation_leaves_offset_past_capacity:
  assumes "fst (allocate_tensor_buffer p s) = None"
  shows "current_offset (snd (allocate_tensor_buffer p s)) > total_capacity p"
  using assms by (simp add: allocate_tensor_buffer_def Let_def split: if_splits)

lemma allocation_fails_past_capacity_without_wrap:
  assumes "current_offset p > total_capacity p"
    and "unat (current_offset p) + block_size s < 2 ^ 64"
  shows "fst (allocate_tensor_buffer p s) = None"
    and "current_offset (snd (allocate_tensor_buffer p s)) > total_capacity p"
    and "total_capacity (snd (allocate_tensor_buffer p s)) = total_capacity p"
proof -
  have "unat (current_offset p + ALIGN_UP s 64) = unat (current_offset p) + block_size s"
    using assms(2) by (simp add: unat_word_ariths block_size_def)
  with assms(1) have gt: "current_offset p + ALIGN_UP s 64 > total_capacity p"
    by (simp add: word_less_nat_alt)
  then show "fst (allocate_tensor_buffer p s) = None"
    and "current_offset (snd (allocate_tensor_buffer p s)) > total_capacity p"
    and "total_capacity (snd (allocate_tensor_buffer p s)) = total_capacity p"
    by (simp_all add: allocate_tensor_buffer_def Let_def)
qed

text \<open>
  Claim C5. The capacity test \<^verbatim>\<open>old_offset + aligned_size > total_capacity\<close> is
  evaluated in wrapping 64-bit arithmetic. On a 4 MiB pool a first call for 4194304
  bytes exhausts the pool exactly; a second call for \<open>2^64 - 4194304\<close> bytes (what the C
  bridge \<^verbatim>\<open>alloc_tensor\<close> passes for the \<^verbatim>\<open>int\<close> \<open>-4194304\<close>) makes the sum wrap
  to 0, so the call does not take the out-of-memory branch: it returns the address at
  offset 4194304 with an aligned size of \<open>2^64 - 4194304\<close> bytes, a block that starts
  at the end of the pool and lies wholly past the capacity.
\<close>

theorem allocation_past_capacity_after_exhaustion:
  "allocate_all (new_pool 0x7F0000000000 4) [4194304, 18446744073705357312]
     = ([Some 0x7F0000000000, Some 0x7F0000400000], new_pool 0x7F0000000000 4)
   \<and> current_offset (snd (allocate_tensor_buffer (new_pool 0x7F0000000000 4) 4194304))
     = total_capacity (new_pool 0x7F0000000000 4)
   \<and> block_offset (new_pool 0x7F0000000000 4) 0x7F0000400000 = 4194304
   \<and> block_size 18446744073705357312 = 18446744073705357312
   \<and> unat (total_capacity (new_pool 0x7F0000000000 4)) = 4194304
   \<and> unat (total_capacity (new_pool 0x7F0000000000 4))
       < block_offset (new_pool 0x7F0000000000 4) 0x7F0000400000
         + block_size 18446744073705357312"
  by (simp add: new_pool_def allocate_tensor_buffer_def ALIGN_UP_def Let_def
      block_offset_def block_size_def)

text \<open>
  Claim C8. On a 4 MiB pool a call for \<open>2^64 - 64\<close> bytes fails and leaves the offset
  at \<open>2^64 - 64\<close>. The next call, for 64 bytes and with no \<^verbatim>\<open>fast_reset\<close> in between,
  wraps the offset to 0, passes the capacity test and returns the address 64 bytes
  below the pool base.
\<close>

theorem small_allocation_succeeds_after_failure:
  "allocate_tensor_buffer (new_pool 0x7F0000000000 4) 18446744073709551552
     = (None, (new_pool 0x7F0000000000 4)\<lparr>current_offset := 18446744073709551552\<rparr>)
   \<and> allocate_tensor_buffer
        ((new_pool 0x7F0000000000 4)\<lparr>current_offset := 18446744073709551552\<rparr>) 64
     = (Some 0x7EFFFFFFFFC0, new_pool 0x7F0000000000 4)"
  by (simp add: new_pool_def allocate_tensor_buffer_def ALIGN_UP_def Let_def)

section \<open>Properties of the safety monitor\<close>

subsection \<open>Single ticks\<close>

lemma unat_WATCHDOG_LIMIT: "unat WATCHDOG_LIMIT = 300000000"
  by (simp add: WATCHDOG_LIMIT_def)

lemma of_nat_limit: "(of_nat (unat WATCHDOG_LIMIT) :: 32 word) = WATCHDOG_LIMIT"
  by simp

lemma unat_of_nat_below_limit:
  assumes "n \<le> unat WATCHDOG_LIMIT"
  shows "unat (of_nat n :: 32 word) = n"
proof -
  have "n < 2 ^ 32" using assms by (simp add: unat_WATCHDOG_LIMIT)
  then show ?thesis by (simp add: unsigned_of_nat take_bit_nat_eq_self)
qed

lemma tick_fields:
  "watchdog_counter (tick s i) = fst (watchdog_logic s i)"
  "heartbeat_prev (tick s i) = snd (watchdog_logic s i)"
  "current_state (tick s i) = current_state (scram_fsm s i)"
  "power_cut_trigger (tick s i) = power_cut_trigger (scram_fsm s i)"
  "system_locked (tick s i) = system_locked (scram_fsm s i)"
  "status_leds (tick s i) = status_leds (scram_fsm s i)"
  by (simp_all add: tick_def split: prod.splits)

lemma quiet_tick:
  assumes "current_state s = STATE_OK" and "watchdog_counter s < WATCHDOG_LIMIT"
    and "rst_n i" and "heartbeat_signal i = heartbeat_prev s"
    and "temp_sensor_raw i \<le> TEMP_CRITICAL_LIMIT"
  shows "current_state (tick s i) = STATE_OK"
    and "watchdog_counter (tick s i) = watchdog_counter s + 1"
    and "heartbeat_prev (tick s i) = heartbeat_prev s"
    and "power_cut_trigger (tick s i) = power_cut_trigger s"
  using assms by (simp_all add: tick_fields watchdog_logic_def scram_fsm_def not_le [symmetric])

lemma quiet_run:
  assumes ok: "current_state s = STATE_OK" and zero: "watchdog_counter s = 0"
    and quiet: "\<forall>t<n. rst_n (inp t) \<and> heartbeat_signal (inp t) = heartbeat_prev s
                  \<and> temp_sensor_raw (inp t) \<le> TEMP_CRITICAL_LIMIT"
    and n: "n \<le> unat WATCHDOG_LIMIT"
  shows "current_state (run s inp n) = STATE_OK
       \<and> watchdog_counter (run s inp n) = of_nat n
       \<and> heartbeat_prev (run s inp n) = heartbeat_prev s
       \<and> power_cut_trigger (run s inp n) = power_cut_trigger s"
  using quiet n
proof (induction n)
  case 0
  then show ?case by (simp add: ok zero)
next
  case (Suc n)
  then have ih: "current_state (run s inp n) = STATE_OK"
      "watchdog_counter (run s inp n) = of_nat n"
      "heartbeat_prev (run s inp n) = heartbeat_prev s"
      "power_cut_trigger (run s inp n) = power_cut_trigger s"
    by simp_all
  have "unat (of_nat n :: 32 word) = n"
    using Suc.prems(2) by (intro unat_of_nat_below_limit) simp
  then have below: "watchdog_counter (run s inp n) < WATCHDOG_LIMIT"
    using Suc.prems(2) by (simp add: ih word_less_nat_alt)
  have inp: "rst_n (inp n)" "heartbeat_signal (inp n) = heartbeat_prev (run s inp n)"
      "temp_sensor_raw (inp n) \<le> TEMP_CRITICAL_LIMIT"
    using Suc.prems(1) by (simp_all add: ih)
  show ?case
    using quiet_tick [OF ih(1) below inp] by (simp add: ih)
qed

lemma expired_tick:
  assumes "current_state s = STATE_OK" and "watchdog_counter s \<ge> WATCHDOG_LIMIT" and "rst_n i"
  shows "current_state (tick s i) = STATE_SCRAM"
    and "power_cut_trigger (tick s i) = power_cut_trigger s"
  using assms by (simp_all add: tick_fields scram_fsm_def)

lemma scram_tick:
  assumes "current_state s = STATE_SCRAM" and "rst_n i"
  shows "current_state (tick s i) = STATE_DEAD" and "power_cut_trigger (tick s i)"
  using assms by (simp_all add: tick_fields scram_fsm_def)

lemma dead_tick:
  assumes "current_state s = STATE_DEAD" and "rst_n i"
  shows "current_state (tick s i) = STATE_DEAD" and "power_cut_trigger (tick s i)"
  using assms by (simp_all add: tick_fields scram_fsm_def)

lemma dead_run:
  assumes "current_state (run s inp m) = STATE_DEAD" and "power_cut_trigger (run s inp m)"
    and "\<forall>t\<ge>m. rst_n (inp t)"
  shows "current_state (run s inp (m + k)) = STATE_DEAD \<and> power_cut_trigger (run s inp (m + k))"
  using assms by (induction k) (simp_all add: dead_tick)

subsection \<open>Watchdog expiry\<close>

text \<open>
  Claim C2, as the module implements it. Start in \<open>STATE_OK\<close> with the watchdog counter
  at 0 and keep \<open>rst_n\<close> high. If during the first \<open>WATCHDOG_LIMIT\<close> ticks the heartbeat
  input does not differ from the stored heartbeat value and the temperature stays at or
  below the critical limit, then the monitor is in \<open>STATE_OK\<close> up to and including the
  state after those ticks, the next tick takes it to \<open>STATE_SCRAM\<close> and the tick after
  that to \<open>STATE_DEAD\<close>. The tick that enters \<open>STATE_SCRAM\<close> leaves \<open>power_cut_trigger\<close>
  as it was; the tick that enters \<open>STATE_DEAD\<close> asserts it, and it stays asserted
  after every later tick.
\<close>

theorem scram_on_watchdog_expiry:
  assumes ok: "current_state s = STATE_OK" and zero: "watchdog_counter s = 0"
    and rst: "\<forall>t. rst_n (inp t)"
    and quiet: "\<forall>t<unat WATCHDOG_LIMIT. heartbeat_signal (inp t) = heartbeat_prev s
                  \<and> temp_sensor_raw (inp t) \<le> TEMP_CRITICAL_LIMIT"
  shows "(\<forall>n\<le>unat WATCHDOG_LIMIT.
            current_state (run s inp n) = STATE_OK
            \<and> power_cut_trigger (run s inp n) = power_cut_trigger s)
       \<and> current_state (run s inp (unat WATCHDOG_LIMIT + 1)) = STATE_SCRAM
       \<and> power_cut_trigger (run s inp (unat WATCHDOG_LIMIT + 1)) = power_cut_trigger s
       \<and> (\<forall>n\<ge>unat WATCHDOG_LIMIT + 2.
            current_state (run s inp n) = STATE_DEAD \<and> power_cut_trigger (run s inp n))"
proof -
  let ?L = "unat WATCHDOG_LIMIT"
  have phase1: "current_state (run s inp n) = STATE_OK
       \<and> watchdog_counter (run s inp n) = of_nat n
       \<and> heartbeat_prev (run s inp n) = heartbeat_prev s
       \<and> power_cut_trigger (run s inp n) = power_cut_trigger s" if "n \<le> ?L" for n
    using ok zero _ that
  proof (rule quiet_run)
    show "\<forall>t<n. rst_n (inp t) \<and> heartbeat_signal (inp t) = heartbeat_prev s
                  \<and> temp_sensor_raw (inp t) \<le> TEMP_CRITICAL_LIMIT"
      using rst quiet that by simp
  qed
  have atL: "current_state (run s inp ?L) = STATE_OK"
      "watchdog_counter (run s inp ?L) \<ge> WATCHDOG_LIMIT"
      "power_cut_trigger (run s inp ?L) = power_cut_trigger s"
    using phase1 [of ?L] by (simp_all del: of_nat_unat add: of_nat_limit)
  have rL: "rst_n (inp ?L)" using rst by simp
  have scram: "current_state (run s inp (Suc ?L)) = STATE_SCRAM"
      "power_cut_trigger (run s inp (Suc ?L)) = power_cut_trigger s"
    using expired_tick [OF atL(1) atL(2) rL] atL(3) by simp_all
  have rL1: "rst_n (inp (Suc ?L))" using rst by simp
  have dead: "current_state (run s inp (Suc (Suc ?L))) = STATE_DEAD"
      "power_cut_trigger (run s inp (Suc (Suc ?L)))"
    using scram_tick [OF scram(1) rL1] by simp_all
  have after: "current_state (run s inp n) = STATE_DEAD \<and> power_cut_trigger (run s inp n)"
    if "n \<ge> ?L + 2" for n
  proof -
    have r: "\<forall>t\<ge>Suc (Suc ?L). rst_n (inp t)" using rst by simp
    from that obtain k where n: "n = Suc (Suc ?L) + k"
      using le_Suc_ex [of "Suc (Suc ?L)" n] by auto
    show ?thesis unfolding n by (rule dead_run [OF dead r])
  qed
  show ?thesis
    using phase1 scram after by (simp del: run.simps)
qed

theorem scram_on_watchdog_expiry_witness:
  "current_state reset_regs = STATE_OK \<and> watchdog_counter reset_regs = 0
   \<and> current_state (run reset_regs idle_inputs (unat WATCHDOG_LIMIT)) = STATE_OK
   \<and> current_state (run reset_regs idle_inputs (unat WATCHDOG_LIMIT + 1)) = STATE_SCRAM
   \<and> current_state (run reset_regs idle_inputs (unat WATCHDOG_LIMIT + 2)) = STATE_DEAD
   \<and> power_cut_trigger (run reset_regs idle_inputs (unat WATCHDOG_LIMIT + 2))
   \<and> power_cut_trigger (run reset_regs idle_inputs (unat WATCHDOG_LIMIT + 1000))"
proof -
  have h1: "current_state reset_regs = STATE_OK" by (simp add: reset_regs_def)
  have h2: "watchdog_counter reset_regs = 0" by (simp add: reset_regs_def)
  have h3: "\<forall>t. rst_n (idle_inputs t)" by (simp add: idle_inputs_def)
  have h4: "\<forall>t<unat WATCHDOG_LIMIT. heartbeat_signal (idle_inputs t) = heartbeat_prev reset_regs
                  \<and> temp_sensor_raw (idle_inputs t) \<le> TEMP_CRITICAL_LIMIT"
    by (simp add: idle_inputs_def reset_regs_def TEMP_CRITICAL_LIMIT_def)
  show ?thesis
    using scram_on_watchdog_expiry [OF h1 h2 h3 h4] h1 h2 by (simp del: run.simps)
qed

text \<open>
  Claim C2 as stated asks for \<open>power_cut_trigger\<close> to be asserted on entering
  \<open>STATE_SCRAM\<close>. From reset and with no heartbeat, the monitor is in \<open>STATE_SCRAM\<close>
  after 300000001 ticks and \<open>power_cut_trigger\<close> is still low there.
\<close>

theorem power_cut_not_asserted_on_entering_scram:
  "current_state (run reset_regs idle_inputs 300000000) = STATE_OK
   \<and> current_state (run reset_regs idle_inputs 300000001) = STATE_SCRAM
   \<and> \<not> power_cut_trigger (run reset_regs idle_inputs 300000001)"
proof -
  have q: "\<forall>t<300000000. rst_n (idle_inputs t)
              \<and> heartbeat_signal (idle_inputs t) = heartbeat_prev reset_regs
              \<and> temp_sensor_raw (idle_inputs t) \<le> TEMP_CRITICAL_LIMIT"
    by (simp add: idle_inputs_def reset_regs_def TEMP_CRITICAL_LIMIT_def)
  have s0: "current_state reset_regs = STATE_OK" "watchdog_counter reset_regs = 0"
    by (simp_all add: reset_regs_def)
  have n: "(300000000::nat) \<le> unat WATCHDOG_LIMIT" by (simp add: unat_WATCHDOG_LIMIT)
  have at: "current_state (run reset_regs idle_inputs 300000000) = STATE_OK"
      "watchdog_counter (run reset_regs idle_inputs 300000000) = WATCHDOG_LIMIT"
      "power_cut_trigger (run reset_regs idle_inputs 300000000) = False"
    using quiet_run [OF s0 q n] by (simp_all add: WATCHDOG_LIMIT_def reset_regs_def)
  have nx: "(300000001::nat) = Suc 300000000" by simp
  have r: "rst_n (idle_inputs 300000000)" by (simp add: idle_inputs_def)
  have "WATCHDOG_LIMIT \<le> watchdog_counter (run reset_regs idle_inputs 300000000)"
    by (simp add: at(2))
  from expired_tick [OF at(1) this r] at show ?thesis
    by (simp only: nx run.simps) simp
qed

subsection \<open>Heartbeat\<close>

text \<open>
  Claim C7, as the module implements it. On a tick whose heartbeat input differs from
  the stored heartbeat value, \<open>watchdog_counter\<close> is 0 after the tick; and if the monitor
  is in \<open>STATE_OK\<close>, the temperature is at or below the critical limit and the counter
  was below \<open>WATCHDOG_LIMIT\<close> before the tick, the monitor is still in \<open>STATE_OK\<close> after
  it.
\<close>

theorem heartbeat_toggle_resets_watchdog:
  assumes "heartbeat_signal i \<noteq> heartbeat_prev s"
  shows "watchdog_counter (tick s i) = 0
       \<and> (current_state s = STATE_OK \<and> temp_sensor_raw i \<le> TEMP_CRITICAL_LIMIT
            \<and> watchdog_counter s < WATCHDOG_LIMIT
          \<longrightarrow> current_state (tick s i) = STATE_OK)"
  using assms
  by (simp add: tick_fields watchdog_logic_def scram_fsm_def not_le [symmetric])

theorem heartbeat_toggle_resets_watchdog_witness:
  "heartbeat_signal \<lparr>rst_n = True, heartbeat_signal = True, temp_sensor_raw = 7\<rparr>
     \<noteq> heartbeat_prev reset_regs
   \<and> watchdog_counter (tick (reset_regs\<lparr>watchdog_counter := 41\<rparr>)
         \<lparr>rst_n = True, heartbeat_signal = True, temp_sensor_raw = 7\<rparr>) = 0
   \<and> current_state (tick (reset_regs\<lparr>watchdog_counter := 41\<rparr>)
         \<lparr>rst_n = True, heartbeat_signal = True, temp_sensor_raw = 7\<rparr>) = STATE_OK"
  using heartbeat_toggle_resets_watchdog
    [of "\<lparr>rst_n = True, heartbeat_signal = True, temp_sensor_raw = 7\<rparr>"
        "reset_regs\<lparr>watchdog_counter := 41\<rparr>"]
  by (simp add: reset_regs_def TEMP_CRITICAL_LIMIT_def WATCHDOG_LIMIT_def)

text \<open>
  Claim C7 as stated has no condition on the counter. The SCRAM process tests the value
  that \<open>watchdog_counter\<close> had before the tick: from reset, a first heartbeat on tick
  number 300000000 finds the counter at the limit, and that tick resets the counter to 0
  and still moves the monitor from \<open>STATE_OK\<close> to \<open>STATE_SCRAM\<close>, with the temperature
  below the limit.
\<close>

theorem late_heartbeat_does_not_prevent_scram:
  "current_state (run reset_regs late_heartbeat 300000000) = STATE_OK
   \<and> heartbeat_signal (late_heartbeat 300000000)
       \<noteq> heartbeat_prev (run reset_regs late_heartbeat 300000000)
   \<and> temp_sensor_raw (late_heartbeat 300000000) \<le> TEMP_CRITICAL_LIMIT
   \<and> watchdog_counter (run reset_regs late_heartbeat 300000001) = 0
   \<and> current_state (run reset_regs late_heartbeat 300000001) = STATE_SCRAM"
proof -
  have q: "\<forall>t<300000000. rst_n (late_heartbeat t)
              \<and> heartbeat_signal (late_heartbeat t) = heartbeat_prev reset_regs
              \<and> temp_sensor_raw (late_heartbeat t) \<le> TEMP_CRITICAL_LIMIT"
    by (simp add: late_heartbeat_def reset_regs_def TEMP_CRITICAL_LIMIT_def)
  have s0: "current_state reset_regs = STATE_OK" "watchdog_counter reset_regs = 0"
    by (simp_all add: reset_regs_def)
  have n: "(300000000::nat) \<le> unat WATCHDOG_LIMIT" by (simp add: unat_WATCHDOG_LIMIT)
  have at: "current_state (run reset_regs late_heartbeat 300000000) = STATE_OK"
      "watchdog_counter (run reset_regs late_heartbeat 300000000) = WATCHDOG_LIMIT"
      "heartbeat_prev (run reset_regs late_heartbeat 300000000) = False"
    using quiet_run [OF s0 q n] by (simp_all add: WATCHDOG_LIMIT_def reset_regs_def)
  have nx: "(300000001::nat) = Suc 300000000" by simp
  have i: "rst_n (late_heartbeat 300000000)" "heartbeat_signal (late_heartbeat 300000000)"
      "temp_sensor_raw (late_heartbeat 300000000) \<le> TEMP_CRITICAL_LIMIT"
    by (simp_all add: late_heartbeat_def TEMP_CRITICAL_LIMIT_def)
  have le: "WATCHDOG_LIMIT \<le> watchdog_counter (run reset_regs late_heartbeat 300000000)"
    by (simp add: at(2))
  have "watchdog_counter (tick (run reset_regs late_heartbeat 300000000)
          (late_heartbeat 300000000)) = 0"
    using at(3) i by (simp add: tick_fields watchdog_logic_def)
  with expired_tick [OF at(1) le i(1)] at i show ?thesis
    by (simp only: nx run.simps) simp
qed

subsection \<open>The counter saturates\<close>

lemma tick_counter_bounded:
  assumes "watchdog_counter s \<le> WATCHDOG_LIMIT"
  shows "watchdog_counter (tick s i) \<le> WATCHDOG_LIMIT"
proof -
  have "watchdog_counter s + 1 \<le> WATCHDOG_LIMIT" if "watchdog_counter s < WATCHDOG_LIMIT"
    using that by (rule inc_le)
  with assms show ?thesis
    by (simp add: tick_fields watchdog_logic_def)
qed

lemma reachable_counter_bounded: "reachable s \<Longrightarrow> watchdog_counter s \<le> WATCHDOG_LIMIT"
proof (induction rule: reachable.induct)
  case reach_reset
  show ?case by (simp add: reset_regs_def)
next
  case (reach_tick s i)
  then show ?case by (simp add: tick_counter_bounded)
qed

text \<open>
  Claim C10. In every state reachable from reset, \<open>watchdog_counter\<close> is at most
  \<open>WATCHDOG_LIMIT\<close>; and on a tick with \<open>rst_n\<close> high and no heartbeat toggle the counter
  is incremented when it is strictly below the limit and otherwise keeps its value, so
  that its new value is the minimum of the old value plus one and the limit: it
  saturates and does not wrap around.
\<close>

theorem watchdog_counter_saturates:
  assumes "reachable s"
  shows "watchdog_counter s \<le> WATCHDOG_LIMIT
       \<and> (\<forall>i. rst_n i \<and> heartbeat_signal i = heartbeat_prev s \<longrightarrow>
             watchdog_counter (tick s i) =
               (if watchdog_counter s < WATCHDOG_LIMIT then watchdog_counter s + 1
                else watchdog_counter s)
             \<and> unat (watchdog_counter (tick s i)) =
                 min (unat (watchdog_counter s) + 1) (unat WATCHDOG_LIMIT))"
proof -
  have b: "watchdog_counter s \<le> WATCHDOG_LIMIT"
    using assms by (rule reachable_counter_bounded)
  have step: "watchdog_counter (tick s i) =
               (if watchdog_counter s < WATCHDOG_LIMIT then watchdog_counter s + 1
                else watchdog_counter s)" if "rst_n i" "heartbeat_signal i = heartbeat_prev s" for i
    using that by (simp add: tick_fields watchdog_logic_def)
  have val: "unat (if watchdog_counter s < WATCHDOG_LIMIT then watchdog_counter s + 1
                else watchdog_counter s) = min (unat (watchdog_counter s) + 1) (unat WATCHDOG_LIMIT)"
  proof (cases "watchdog_counter s < WATCHDOG_LIMIT")
    case True
    then have lt: "unat (watchdog_counter s) < unat WATCHDOG_LIMIT"
      by (simp add: word_less_nat_alt)
    then have "unat (watchdog_counter s) + 1 < 2 ^ 32"
      by (simp add: unat_WATCHDOG_LIMIT)
    then have "unat (watchdog_counter s + 1) = unat (watchdog_counter s) + 1"
      by (simp add: unat_word_ariths)
    with True lt show ?thesis by simp
  next
    case False
    with b have "watchdog_counter s = WATCHDOG_LIMIT" by simp
    then show ?thesis by simp
  qed
  show ?thesis using b step val by simp
qed

theorem watchdog_counter_saturates_witness:
  "reachable (tick reset_regs (idle_inputs 0))
   \<and> watchdog_counter (tick reset_regs (idle_inputs 0)) \<le> WATCHDOG_LIMIT
   \<and> watchdog_counter (tick (tick reset_regs (idle_inputs 0)) (idle_inputs 1)) = 2"
proof -
  have r: "reachable (tick reset_regs (idle_inputs 0))"
    by (intro reach_tick reach_reset)
  have i: "rst_n (idle_inputs 1)
      \<and> heartbeat_signal (idle_inputs 1) = heartbeat_prev (tick reset_regs (idle_inputs 0))"
    by (simp add: idle_inputs_def tick_fields watchdog_logic_def reset_regs_def)
  show ?thesis
    using watchdog_counter_saturates [OF r] r i
    by (simp add: idle_inputs_def tick_fields watchdog_logic_def reset_regs_def WATCHDOG_LIMIT_def)
qed

section \<open>Properties of the kernel driver\<close>

subsection \<open>Register writes\<close>

text \<open>The file operations write to no register other than \<open>CONTROL\<close>.\<close>

lemma file_operations_write_only_control:
  "written (snd hocs_open) = []"
  "written (snd (snd (hocs_read dev hw um buf len))) = []"
  "set (written (snd (snd (hocs_write dev km cmd_reg um buf len))))
     \<subseteq> {bar0_base dev + csr_offset CONTROL}"
  by (simp_all add: hocs_open_def hocs_read_def hocs_write_def REG_CONTROL_def Let_def
      split: prod.splits)

text \<open>
  Claim C3. The driver names offset \<open>0x08\<close> \<^verbatim>\<open>REG_IRQ_ACK\<close>; the register map of the
  interface document has the read-only \<open>ERROR\<close> register there. When the value read
  from that offset has bit 0 set, \<^verbatim>\<open>hocs_irq_handler\<close> writes \<open>0x01\<close> to it.
\<close>

theorem irq_handler_writes_read_only_register:
  "hocs_irq_handler \<lparr>bar0_base = 0x40000000\<rparr> (\<lambda>a. 1)
     = (IRQ_HANDLED, [IORead 0x40000008, IOWrite 0x01 0x40000008])
   \<and> written (snd (hocs_irq_handler \<lparr>bar0_base = 0x40000000\<rparr> (\<lambda>a. 1)))
     = [bar0_base \<lparr>bar0_base = 0x40000000\<rparr> + csr_offset ERROR]
   \<and> csr_at REG_IRQ_ACK = Some ERROR \<and> csr_rw ERROR = RO"
  by (simp add: hocs_irq_handler_def REG_IRQ_ACK_def csr_at_def)

subsection \<open>Module initialisation\<close>

text \<open>
  Claim C4. \<^verbatim>\<open>hocs_driver_init\<close> issues no register access at all, whatever device is
  present: it does not read \<open>VERSION\<close>, and when the four registration calls succeed it
  returns 0.
\<close>

theorem driver_init_never_reads_version:
  "snd (snd (hocs_driver_init k hw)) = []
   \<and> hocs_driver_init
        \<lparr>alloc_chrdev_region_ret = 0, class_create_null = False, device_create_null = False,
         cdev_add_ret = 0\<rparr> hw
      = (0, [Alloc_chrdev_region, Class_create, Device_create, Cdev_init, Cdev_add], [])"
  by (simp add: hocs_driver_init_def)

subsection \<open>The write handler\<close>








section \<open>Properties of the packet codec\<close>

lemma u32_of_bytes_store32:
  "u32_of_bytes (ucast w) (ucast (drop_bit 8 w)) (ucast (drop_bit 16 w)) (ucast (drop_bit 24 w)) = w"
  unfolding u32_of_bytes_def
proof (rule bit_word_eqI)
  fix n assume n: "n < LENGTH(32)"
  consider "n < 8" | "8 \<le> n" "n < 16" | "16 \<le> n" "n < 24" | "24 \<le> n"
    by linarith
  then show "bit (ucast (ucast w :: byte) OR push_bit 8 (ucast (ucast (drop_bit 8 w) :: byte))
         OR push_bit 16 (ucast (ucast (drop_bit 16 w) :: byte))
         OR push_bit 24 (ucast (ucast (drop_bit 24 w) :: byte)) :: u32) n = bit w n"
    using n by cases (auto simp add: bit_simps)
qed

lemma length_store32: "length (store32 w) = 4"
  by (simp add: store32_def)

lemma pad_len_aligned: "(n + pad_len n) mod 8 = 0"
proof (cases "n mod 8 = 0")
  case True
  then show ?thesis by (simp add: pad_len_def)
next
  case False
  define q where "q = n div 8"
  define r where "r = n mod 8"
  have r: "r < 8" "r \<noteq> 0"
    using False by (simp_all add: r_def)
  have n: "n = q * 8 + r"
    by (simp add: q_def r_def)
  have "pad_len n = 8 - r"
    using r by (simp add: pad_len_def r_def [symmetric])
  with r have "n + pad_len n = (q + 1) * 8"
    by (simp add: n)
  then show ?thesis by simp
qed

lemma pad_len_zero: "n mod 8 = 0 \<Longrightarrow> pad_len n = 0"
  by (simp add: pad_len_def)

lemma length_encode:
  "length (encode c opc tid pl) = 16 + (length pl + pad_len (length pl)) + 4"
  by (simp add: encode_def Let_def length_store32)

lemma length_encode_aligned:
  "length pl mod 8 = 0 \<Longrightarrow> length (encode c opc tid pl) = 16 + length pl + 4"
  by (simp add: length_encode pad_len_zero)

lemma read32_store32: "read32 (store32 w @ bs) 0 = w"
  by (simp add: read32_def store32_def u32_of_bytes_store32)

lemma read32_skip: "length xs = k \<Longrightarrow> read32 (xs @ ys) (k + off) = read32 ys off"
  by (simp add: read32_def nth_append)

lemma read32_at:
  assumes "length xs = k"
  shows "read32 (xs @ store32 w @ ys) k = w"
proof -
  have "read32 (xs @ store32 w @ ys) (k + 0) = read32 (store32 w @ ys) 0"
    using assms by (rule read32_skip)
  then show ?thesis by (simp add: read32_store32)
qed

lemma read32_at_end:
  assumes "length xs = k"
  shows "read32 (xs @ store32 w) k = w"
  using read32_at [OF assms, of w "[]"] by simp

lemma opcode_of_value_inverse: "opcode_of_value (opcode_value opc) = Some opc"
  by (cases opc) (simp_all add: opcode_of_value_def)

text \<open>
  Claim C6. For every opcode, tile id and payload of at most 4 MiB, decoding the encoded
  packet succeeds and returns the magic, the code of the opcode, the payload length, the
  tile id and the payload that were encoded, together with the checksum of header and
  payload; and the code read back denotes the original opcode.
\<close>

theorem decode_encode_roundtrip:
  assumes "length pl \<le> 4 * 1024 * 1024"
  shows "decode c (encode c opc tid pl) =
           Inr \<lparr>magic = MAGIC_VAL c, opcode = opcode_value opc,
                payload_len = of_nat (length pl), tile_id = tid, payload = pl,
                crc32 = CRC32 c (take (16 + length pl) (encode c opc tid pl))\<rparr>
       \<and> opcode_of_value (opcode_value opc) = Some opc"
proof -
  let ?m = "store32 (MAGIC_VAL c)" and ?o = "store32 (opcode_value opc)"
  let ?l = "store32 (of_nat (length pl))" and ?t = "store32 tid"
  let ?body = "?m @ ?o @ ?l @ ?t @ pl"
  let ?pad = "replicate (pad_len (length pl)) (0 :: byte)"
  let ?crc = "CRC32 c ?body"
  let ?bs = "?body @ ?pad @ store32 ?crc"
  have enc: "encode c opc tid pl = ?bs"
    by (simp add: encode_def Let_def)
  have len_body: "length ?body = 16 + length pl"
    by (simp add: length_store32)
  have len_padded: "length (?body @ ?pad) = 16 + (length pl + pad_len (length pl))"
    by (simp add: length_store32)
  have len: "length ?bs = 20 + (length pl + pad_len (length pl))"
    by (simp add: length_store32)
  have "length pl < 2 ^ 32" using assms by simp
  then have n: "unat (of_nat (length pl) :: u32) = length pl"
    by (simp add: unsigned_of_nat take_bit_nat_eq_self)
  have r0: "read32 ?bs 0 = MAGIC_VAL c"
    by (simp add: read32_store32)
  have r4: "read32 ?bs 4 = opcode_value opc"
    using read32_at [of ?m 4 "opcode_value opc" "?l @ ?t @ pl @ ?pad @ store32 ?crc"]
    by (simp add: length_store32)
  have r8: "read32 ?bs 8 = of_nat (length pl)"
    using read32_at [of "?m @ ?o" 8 "of_nat (length pl)" "?t @ pl @ ?pad @ store32 ?crc"]
    by (simp add: length_store32)
  have r12: "read32 ?bs 12 = tid"
    using read32_at [of "?m @ ?o @ ?l" 12 tid "pl @ ?pad @ store32 ?crc"]
    by (simp add: length_store32)
  have rc: "read32 ?bs (16 + (length pl + pad_len (length pl))) = ?crc"
    using read32_at_end [OF len_padded, of ?crc] by simp
  have tk: "take (16 + length pl) ?bs = ?body"
    using len_body by simp
  have pl: "take (length pl) (drop 16 ?bs) = pl"
    by (simp add: length_store32)
  have "decode c ?bs =
           Inr \<lparr>magic = MAGIC_VAL c, opcode = opcode_value opc,
                payload_len = of_nat (length pl), tile_id = tid, payload = pl,
                crc32 = CRC32 c (take (16 + length pl) ?bs)\<rparr>"
    unfolding decode_def Let_def r0 r4 r8 r12 n rc tk pl len
    by simp
  then show ?thesis
    by (simp only: enc opcode_of_value_inverse simp_thms)
qed

theorem decode_encode_roundtrip_witness:
  "length [1, 2, 3 :: byte] \<le> 4 * 1024 * 1024
   \<and> length (encode example_codec WRITE 7 [1, 2, 3]) = 28
   \<and> decode example_codec (encode example_codec WRITE 7 [1, 2, 3]) =
       Inr \<lparr>magic = 0x48304335, opcode = 1, payload_len = 3, tile_id = 7,
            payload = [1, 2, 3],
            crc32 = crc32_ieee (take 19 (encode example_codec WRITE 7 [1, 2, 3]))\<rparr>
   \<and> opcode_of_value 1 = Some WRITE"
proof -
  have h: "length [1, 2, 3 :: byte] \<le> 4 * 1024 * 1024" by simp
  have l: "length (encode example_codec WRITE 7 [1, 2, 3]) = 28"
    by (simp add: length_encode pad_len_def)
  from decode_encode_roundtrip [OF h, of example_codec WRITE 7] h l show ?thesis
    by (simp add: example_codec_def)
qed

end
